theory Spec2Isabelle
  imports Complex_Main "HOL-Library.Word" "HOL-Library.Log_Nat"
begin

unbundle bit_operations_syntax

section \<open>Machine types\<close>

type_synonym u8 = "8 word"
type_synonym u16 = "16 word"
type_synonym u32 = "32 word"
type_synonym i16 = "16 word"

section \<open>Battery percentage (adcReading.cpp)\<close>

text \<open>
  \<^verbatim>\<open>int calculateBatteryPercentage(int voltage_mV)\<close>.  The two early returns leave
  \<open>3000 < voltage_mV < 4200\<close> for the arithmetic, where every operand is
  non-negative and below \<open>2 ^ 31\<close>: no 32-bit overflow can happen and C's truncating
  division agrees with \<open>div\<close>, so the function is written on \<open>int\<close>.
\<close>

definition calculateBatteryPercentage :: "int \<Rightarrow> int" where
  "calculateBatteryPercentage voltage_mV =
    (let BATTERY_MIN_VOLTAGE = 3000; BATTERY_MAX_VOLTAGE = 4200 in
     if voltage_mV \<le> BATTERY_MIN_VOLTAGE then 0
     else if voltage_mV \<ge> BATTERY_MAX_VOLTAGE then 100
     else
       let percentage =
         (if voltage_mV \<ge> 4000 then 85 + ((voltage_mV - 4000) * 15) div 200
          else if voltage_mV \<ge> 3800 then 60 + ((voltage_mV - 3800) * 25) div 200
          else if voltage_mV \<ge> 3700 then 40 + ((voltage_mV - 3700) * 20) div 100
          else if voltage_mV \<ge> 3600 then 20 + ((voltage_mV - 3600) * 20) div 100
          else if voltage_mV \<ge> 3300 then 5 + ((voltage_mV - 3300) * 15) div 300
          else ((voltage_mV - 3000) * 5) div 300);
         percentage = (if percentage < 0 then 0 else percentage);
         percentage = (if percentage > 100 then 100 else percentage)
       in percentage)"

text \<open>
  The breakpoint table of the specification, and the linear interpolant through two
  consecutive breakpoints, used to compare the code with the specification's wording.
\<close>

definition breakpoints :: "(int \<times> int) list" where
  "breakpoints = [(3000, 0), (3300, 5), (3600, 20), (3700, 40), (3800, 60), (4000, 85), (4200, 100)]"

definition segments :: "((int \<times> int) \<times> (int \<times> int)) list" where
  "segments = zip (butlast breakpoints) (tl breakpoints)"

definition interpolate :: "(int \<times> int) \<Rightarrow> (int \<times> int) \<Rightarrow> int \<Rightarrow> rat" where
  "interpolate a b v =
     of_int (snd a) + of_int (v - fst a) * of_int (snd b - snd a) / of_int (fst b - fst a)"

section \<open>Particulate-matter frame decoder (getPM2dot5.cpp)\<close>

definition PM25_HEADER :: u8 where "PM25_HEADER = 0xA5"
definition PM25_PACKET_SIZE :: int where "PM25_PACKET_SIZE = 4"

record pm25_packet_t =
  header :: u8
  dataH :: u8
  dataL :: u8
  checksum :: u8

record pm25_state =
  pm25_concentration :: u16
  pm25_data_ready :: bool
  rx_buffer :: "u8 list"
  buffer_index :: int
  header_found :: bool

datatype fault = BufferOverrun int

text \<open>The globals as the C++ runtime zero-initialises them before \<open>pm25_init\<close> runs.\<close>

definition pm25_static :: pm25_state where
  "pm25_static = \<lparr>pm25_concentration = 0, pm25_data_ready = False,
     rx_buffer = [0, 0, 0, 0], buffer_index = 0, header_found = False\<rparr>"

definition pm25_init :: "pm25_state \<Rightarrow> pm25_state" where
  "pm25_init s = s\<lparr>buffer_index := 0, header_found := False,
     pm25_data_ready := False, pm25_concentration := 0\<rparr>"

text \<open>
  The operands of the sum are promoted to \<open>int\<close>, masked, and the result is stored in a
  \<open>uint8_t\<close>.
\<close>

definition validate_packet :: "pm25_packet_t \<Rightarrow> bool" where
  "validate_packet packet =
    (let calculated_sum = (word_of_int ((uint (header packet) + uint (dataH packet)
                             + uint (dataL packet)) AND 0x7F) :: u8)
     in calculated_sum = checksum packet)"

definition calculate_concentration :: "u8 \<Rightarrow> u8 \<Rightarrow> u16" where
  "calculate_concentration dH dL = word_of_int (uint dH * 128 + uint dL)"

text \<open>The cast of the receive buffer to the packet struct: four consecutive bytes.\<close>

definition packet_of :: "u8 list \<Rightarrow> pm25_packet_t" where
  "packet_of buf = \<lparr>header = buf ! 0, dataH = buf ! 1, dataL = buf ! 2, checksum = buf ! 3\<rparr>"

definition process_packet :: "pm25_state \<Rightarrow> pm25_state" where
  "process_packet s =
    (let packet = packet_of (rx_buffer s) in
     if validate_packet packet
     then s\<lparr>pm25_concentration := calculate_concentration (dataH packet) (dataL packet),
             pm25_data_ready := True\<rparr>
     else s)"

text \<open>
  A store into the buffer outside its four cells is a fault of the model, so that memory
  safety is something to prove and not an assumption.
\<close>

definition store_byte :: "pm25_state \<Rightarrow> int \<Rightarrow> u8 \<Rightarrow> fault + pm25_state" where
  "store_byte s i b =
    (if 0 \<le> i \<and> i < int (length (rx_buffer s))
     then Inr (s\<lparr>rx_buffer := (rx_buffer s)[nat i := b]\<rparr>)
     else Inl (BufferOverrun i))"

text \<open>The body of the \<open>while (Serial2.available())\<close> loop, for one byte read.\<close>

definition pm25_update_byte :: "pm25_state \<Rightarrow> u8 \<Rightarrow> fault + pm25_state" where
  "pm25_update_byte s byte =
    (if \<not> header_found s then
       (if byte = PM25_HEADER then
          (case store_byte s 0 byte of
             Inl e \<Rightarrow> Inl e
           | Inr s1 \<Rightarrow> Inr (s1\<lparr>buffer_index := 1, header_found := True\<rparr>))
        else Inr s)
     else
       (case store_byte s (buffer_index s) byte of
          Inl e \<Rightarrow> Inl e
        | Inr s1 \<Rightarrow>
            (let s2 = s1\<lparr>buffer_index := buffer_index s1 + 1\<rparr> in
             if buffer_index s2 \<ge> PM25_PACKET_SIZE
             then Inr ((process_packet s2)\<lparr>buffer_index := 0, header_found := False\<rparr>)
             else Inr s2)))"

text \<open>\<open>pm25_update\<close> drains the bytes pending in the serial receive queue.\<close>

fun pm25_update :: "pm25_state \<Rightarrow> u8 list \<Rightarrow> fault + pm25_state" where
  "pm25_update s [] = Inr s"
| "pm25_update s (byte # pending) =
     (case pm25_update_byte s byte of
        Inl e \<Rightarrow> Inl e
      | Inr s' \<Rightarrow> pm25_update s' pending)"

definition pm25_get_value :: "pm25_state \<Rightarrow> u16" where
  "pm25_get_value s = pm25_concentration s"

definition pm25_is_data_ready :: "pm25_state \<Rightarrow> bool \<times> pm25_state" where
  "pm25_is_data_ready s = (pm25_data_ready s, s\<lparr>pm25_data_ready := False\<rparr>)"

text \<open>
  A consumer that runs \<open>pm25_update\<close> on each received byte and then polls
  \<open>pm25_is_data_ready\<close>: the list of the values it reads is the list of frames the
  decoder produced.
\<close>

fun frames :: "pm25_state \<Rightarrow> u8 list \<Rightarrow> fault + (u16 list \<times> pm25_state)" where
  "frames s [] = Inr ([], s)"
| "frames s (byte # rest) =
     (case pm25_update s [byte] of
        Inl e \<Rightarrow> Inl e
      | Inr s1 \<Rightarrow>
          (let (ready, s2) = pm25_is_data_ready s1 in
           case frames s2 rest of
             Inl e \<Rightarrow> Inl e
           | Inr (out, s3) \<Rightarrow> Inr ((if ready then [pm25_get_value s2] else []) @ out, s3)))"

text \<open>The invariant of the decoder between two bytes.\<close>

definition pm25_inv :: "pm25_state \<Rightarrow> bool" where
  "pm25_inv s = (length (rx_buffer s) = 4 \<and>
     (header_found s \<longrightarrow> 1 \<le> buffer_index s \<and> buffer_index s \<le> 3 \<and> rx_buffer s ! 0 = PM25_HEADER))"

section \<open>Single-precision arithmetic\<close>

text \<open>
  The brightness curves are computed in \<open>float\<close>.  A finite \<open>float\<close> is a rational, and
  each IEEE 754 binary32 operation returns the exact result rounded to the nearest
  value with a 24-bit significand, ties to even.  Every operand of the curves is
  bounded by \<open>2 ^ 16\<close>, so neither infinities nor NaN arise there and rationals with
  this rounding describe the operations exactly.
\<close>

definition pow2 :: "int \<Rightarrow> rat" where
  "pow2 e = (if 0 \<le> e then 2 ^ nat e else 1 / 2 ^ nat (- e))"

text \<open>\<open>ilog2 x\<close> is the binary exponent of a positive rational: \<open>2 ^ e \<le> x < 2 ^ (e + 1)\<close>.\<close>

definition ilog2 :: "rat \<Rightarrow> int" where
  "ilog2 x = (let (p, q) = quotient_of x; e = bitlen p - bitlen q
              in if pow2 e \<le> x then e else e - 1)"

definition round_half_even :: "rat \<Rightarrow> int" where
  "round_half_even x =
    (let f = \<lfloor>x\<rfloor>; r = x - of_int f in
     if r < 1 / 2 then f else if 1 / 2 < r then f + 1 else if even f then f else f + 1)"

definition f32_round :: "rat \<Rightarrow> rat" where
  "f32_round x =
    (if x = 0 then 0
     else let e = max (ilog2 \<bar>x\<bar>) (- 126); ulp = pow2 (e - 23)
          in of_int (round_half_even (x / ulp)) * ulp)"

definition f32_mul :: "rat \<Rightarrow> rat \<Rightarrow> rat" where
  "f32_mul a b = f32_round (a * b)"

definition f32_div :: "rat \<Rightarrow> rat \<Rightarrow> rat" where
  "f32_div a b = f32_round (a / b)"

definition f32_sub :: "rat \<Rightarrow> rat \<Rightarrow> rat" where
  "f32_sub a b = f32_round (a - b)"

text \<open>
  The conversion \<open>(uint8_t) f\<close> discards the fraction.  C defines it only when the
  truncated value fits into 0..255; outside, the model keeps the low eight bits.
\<close>

definition f32_trunc :: "rat \<Rightarrow> int" where
  "f32_trunc f = (if 0 \<le> f then \<lfloor>f\<rfloor> else \<lceil>f\<rceil>)"

definition f32_to_u8 :: "rat \<Rightarrow> u8" where
  "f32_to_u8 f = word_of_int (f32_trunc f)"

text \<open>
  The ambient-light reading is a \<open>float\<close> supplied by a sensor driver, so it may be any
  binary32 value; it is only compared.  A comparison with NaN is false.
\<close>

datatype lux_t = Finite rat | PosInf | NegInf | NaN

fun lux_ge :: "lux_t \<Rightarrow> rat \<Rightarrow> bool" where
  "lux_ge (Finite x) c = (x \<ge> c)"
| "lux_ge PosInf c = True"
| "lux_ge NegInf c = False"
| "lux_ge NaN c = False"

section \<open>Brightness control (brightnessConfig.cpp)\<close>

definition LUX_THRESHOLD_HIGH :: rat where "LUX_THRESHOLD_HIGH = 500"
definition LUX_THRESHOLD_MID :: rat where "LUX_THRESHOLD_MID = 300"
definition LUX_THRESHOLD_LOW :: rat where "LUX_THRESHOLD_LOW = 100"
definition BRIGHTNESS_HIGH_LUX :: u8 where "BRIGHTNESS_HIGH_LUX = 50"
definition BRIGHTNESS_MID_LUX :: u8 where "BRIGHTNESS_MID_LUX = 80"
definition BRIGHTNESS_LOW_LUX :: u8 where "BRIGHTNESS_LOW_LUX = 110"
definition BRIGHTNESS_MAX :: u8 where "BRIGHTNESS_MAX = 255"
definition BRIGHTNESS_UP_STEPS :: int where "BRIGHTNESS_UP_STEPS = 40"
definition BRIGHTNESS_DOWN_STEPS :: int where "BRIGHTNESS_DOWN_STEPS = 60"
definition motionTimeout :: u32 where "motionTimeout = 5000"

record brightness_state =
  isMove :: bool
  currentBrightness :: u8
  targetBrightness :: u8
  baseBrightness :: u8
  lastMotionTime :: u32
  brightnessStep :: i16
  isRising :: bool
  isFalling :: bool
  startBrightness :: u8

definition brightness_static :: brightness_state where
  "brightness_static = \<lparr>isMove = False, currentBrightness = 0, targetBrightness = 0,
     baseBrightness = 0, lastMotionTime = 0, brightnessStep = 0, isRising = False,
     isFalling = False, startBrightness = 0\<rparr>"

definition brightnessInit :: "brightness_state \<Rightarrow> brightness_state" where
  "brightnessInit s = s\<lparr>isMove := False, currentBrightness := 0, targetBrightness := 0,
     baseBrightness := 0, brightnessStep := 0, isRising := False, isFalling := False\<rparr>"

text \<open>The interrupt handlers; \<open>now\<close> is the value \<open>millis()\<close> returns.\<close>

definition motionISR :: "u32 \<Rightarrow> brightness_state \<Rightarrow> brightness_state" where
  "motionISR now s = s\<lparr>isMove := True, lastMotionTime := now\<rparr>"

definition key1ISR :: "u32 \<Rightarrow> brightness_state \<Rightarrow> brightness_state" where
  "key1ISR now s = s\<lparr>isMove := True, lastMotionTime := now\<rparr>"

definition key2ISR :: "brightness_state \<Rightarrow> brightness_state" where
  "key2ISR s = s\<lparr>isMove := False\<rparr>"

definition calculateBaseBrightness :: "lux_t \<Rightarrow> u8" where
  "calculateBaseBrightness Lux =
    (if lux_ge Lux LUX_THRESHOLD_HIGH then 0
     else if lux_ge Lux LUX_THRESHOLD_MID then BRIGHTNESS_HIGH_LUX
     else if lux_ge Lux LUX_THRESHOLD_LOW then BRIGHTNESS_MID_LUX
     else BRIGHTNESS_LOW_LUX)"

text \<open>
  \<open>updateBrightness\<close>, one definition per numbered step of the source.  Step 1 expires
  the motion flag; \<open>currentTime - lastMotionTime\<close> is unsigned 32-bit subtraction.
\<close>

definition motion_timeout_step :: "u32 \<Rightarrow> brightness_state \<Rightarrow> brightness_state" where
  "motion_timeout_step currentTime s =
    (if isMove s \<and> currentTime - lastMotionTime s > motionTimeout
     then s\<lparr>isMove := False\<rparr> else s)"

definition target_step :: "brightness_state \<Rightarrow> brightness_state" where
  "target_step s =
    (if baseBrightness s > 0 \<and> isMove s
     then s\<lparr>targetBrightness := BRIGHTNESS_MAX\<rparr>
     else s\<lparr>targetBrightness := baseBrightness s\<rparr>)"

definition restart_step :: "brightness_state \<Rightarrow> brightness_state" where
  "restart_step s =
    (if targetBrightness s \<noteq> currentBrightness s then
       (if targetBrightness s > currentBrightness s then
          (if \<not> isRising s \<or> isFalling s
           then s\<lparr>isRising := True, isFalling := False, brightnessStep := 0,
                   startBrightness := currentBrightness s\<rparr>
           else s)
        else
          (if \<not> isFalling s \<or> isRising s
           then s\<lparr>isFalling := True, isRising := False, brightnessStep := 0,
                   startBrightness := currentBrightness s\<rparr>
           else s))
     else s)"

text \<open>
  The two curves.  \<open>brightnessStep\<close> is an \<open>int16_t\<close>: it is read signed.  The
  difference of the two brightness bytes is computed in \<open>int\<close> and converted exactly.
\<close>

definition rising_value :: "u8 \<Rightarrow> u8 \<Rightarrow> i16 \<Rightarrow> u8" where
  "rising_value start target step =
    (let progress = f32_div (of_int (sint step)) (of_int BRIGHTNESS_UP_STEPS);
         progress = f32_mul progress progress
     in start + f32_to_u8 (f32_mul (of_int (uint target - uint start)) progress))"

definition falling_value :: "u8 \<Rightarrow> u8 \<Rightarrow> i16 \<Rightarrow> u8" where
  "falling_value start target step =
    (let progress = f32_div (of_int (sint step)) (of_int BRIGHTNESS_DOWN_STEPS);
         progress = f32_sub 1 (f32_mul (f32_sub 1 progress) (f32_sub 1 progress))
     in start - f32_to_u8 (f32_mul (of_int (uint start - uint target)) progress))"

definition curve_step :: "brightness_state \<Rightarrow> brightness_state" where
  "curve_step s =
    (if isRising s \<and> currentBrightness s < targetBrightness s then
       (let s1 = s\<lparr>brightnessStep := brightnessStep s + 1\<rparr> in
        if sint (brightnessStep s1) \<le> BRIGHTNESS_UP_STEPS
        then s1\<lparr>currentBrightness :=
                  rising_value (startBrightness s1) (targetBrightness s1) (brightnessStep s1)\<rparr>
        else s1\<lparr>currentBrightness := targetBrightness s1, isRising := False\<rparr>)
     else if isFalling s \<and> currentBrightness s > targetBrightness s then
       (let s1 = s\<lparr>brightnessStep := brightnessStep s + 1\<rparr> in
        if sint (brightnessStep s1) \<le> BRIGHTNESS_DOWN_STEPS
        then s1\<lparr>currentBrightness :=
                  falling_value (startBrightness s1) (targetBrightness s1) (brightnessStep s1)\<rparr>
        else s1\<lparr>currentBrightness := targetBrightness s1, isFalling := False\<rparr>)
     else s\<lparr>isRising := False, isFalling := False\<rparr>)"

definition steps_1_to_3 :: "u32 \<Rightarrow> brightness_state \<Rightarrow> brightness_state" where
  "steps_1_to_3 currentTime s = restart_step (target_step (motion_timeout_step currentTime s))"

definition updateBrightness :: "u32 \<Rightarrow> brightness_state \<Rightarrow> u8 \<times> brightness_state" where
  "updateBrightness currentTime s =
    (let s' = curve_step (steps_1_to_3 currentTime s)
     in (currentBrightness s', s'))"

definition calculatePerceivedBrightness ::
  "lux_t \<Rightarrow> u32 \<Rightarrow> brightness_state \<Rightarrow> u8 \<times> brightness_state" where
  "calculatePerceivedBrightness Lux currentTime s =
     updateBrightness currentTime (s\<lparr>baseBrightness := calculateBaseBrightness Lux\<rparr>)"

text \<open>
  The periodic caller: one call of \<open>calculatePerceivedBrightness\<close> per tick, at the
  times given, with a constant light reading and no interrupt between the ticks.
\<close>

fun ticks :: "lux_t \<Rightarrow> u32 list \<Rightarrow> brightness_state \<Rightarrow> brightness_state" where
  "ticks Lux [] s = s"
| "ticks Lux (t # ts) s = ticks Lux ts (snd (calculatePerceivedBrightness Lux t s))"

text \<open>
  The rising curve as the specification words it: the exact product, rounded to the
  nearest integer.
\<close>

definition rising_value_rounded :: "u8 \<Rightarrow> u8 \<Rightarrow> i16 \<Rightarrow> int" where
  "rising_value_rounded start target step =
     uint start + round (of_int (uint target - uint start) * (of_int (sint step) / 40 :: rat)\<^sup>2)"

text \<open>
  The state of a rise from 0 towards 110 with no motion: \<open>l\<close> is the time of the last
  motion, \<open>k\<close> the step counter, \<open>c\<close> the current brightness.
\<close>

definition rise_state :: "u32 \<Rightarrow> i16 \<Rightarrow> u8 \<Rightarrow> bool \<Rightarrow> brightness_state" where
  "rise_state l k c r = \<lparr>isMove = False, currentBrightness = c, targetBrightness = 110,
     baseBrightness = 110, lastMotionTime = l, brightnessStep = k, isRising = r,
     isFalling = False, startBrightness = 0\<rparr>"

definition curve_110 :: "u8 list" where
  "curve_110 = [0, 0, 0, 1, 1, 2, 3, 4, 5, 6, 8, 9, 11, 13, 15, 17, 19, 22, 24, 27, 30, 33, 36,
     39, 42, 46, 50, 53, 57, 61, 66, 70, 74, 79, 84, 89, 94, 99, 104, 110]"

text \<open>The values the step counter takes during a rise.\<close>

definition step_numbers :: "i16 list" where
  "step_numbers = [1, 2, 3, 4, 5, 6, 7, 8, 9, 10] @ [11, 12, 13, 14, 15, 16, 17, 18, 19, 20] @
     [21, 22, 23, 24, 25, 26, 27, 28, 29, 30] @ [31, 32, 33, 34, 35, 36, 37, 38, 39, 40]"

text \<open>The state \<open>n \<ge> 1\<close> ticks after such a rise began.\<close>

definition rise_after :: "u32 \<Rightarrow> nat \<Rightarrow> brightness_state" where
  "rise_after l n =
    (if n \<le> 40 then rise_state l (of_nat n) (curve_110 ! (n - 1)) True
     else rise_state l 40 110 False)"

section \<open>Properties of the arithmetic model\<close>

text \<open>
  The exponent function is the binary logarithm rounded down, and a rounded value is
  within half a unit in the last place of the exact one.
\<close>

lemma pow2_power_int: "pow2 e = power_int 2 e"
  by (simp add: pow2_def power_int_def inverse_eq_divide power_one_over)

lemma pow2_diff: "pow2 (int a - int b) = 2 ^ a / 2 ^ b"
  by (simp add: pow2_power_int power_int_diff)

lemma pow2_le_of_int: "2 ^ n \<le> (k::int) \<Longrightarrow> (2::rat) ^ n \<le> of_int k"
proof -
  assume "2 ^ n \<le> k"
  then have "(of_int (2 ^ n) :: rat) \<le> of_int k" by (simp only: of_int_le_iff)
  then show ?thesis by simp
qed

lemma of_int_less_pow2: "(k::int) < 2 ^ n \<Longrightarrow> of_int k < (2::rat) ^ n"
proof -
  assume "k < 2 ^ n"
  then have "(of_int k :: rat) < of_int (2 ^ n)" by (simp only: of_int_less_iff)
  then show ?thesis by simp
qed

lemma ilog2_bounds:
  assumes "0 < x"
  shows "pow2 (ilog2 x) \<le> x \<and> x < pow2 (ilog2 x + 1)"
proof -
  obtain p q where pq: "quotient_of x = (p, q)" by (cases "quotient_of x")
  then have q: "0 < q" and x: "x = of_int p / of_int q"
    by (simp_all add: quotient_of_denom_pos quotient_of_div)
  with assms have p: "0 < p" by (simp add: zero_less_divide_iff)
  let ?bp = "nat (bitlen p)" and ?bq = "nat (bitlen q)"
  have "1 \<le> bitlen p" "1 \<le> bitlen q"
    using p q by (auto simp: bitlen_alt_def)
  then have pos: "1 \<le> ?bp" "1 \<le> ?bq" and sub: "nat (bitlen p - 1) = ?bp - 1" "nat (bitlen q - 1) = ?bq - 1"
    and e: "bitlen p - bitlen q = int ?bp - int ?bq"
    by simp_all
  from bitlen_bounds [OF p] have bp: "(2::rat) ^ (?bp - 1) \<le> of_int p" "of_int p < (2::rat) ^ ?bp"
    unfolding sub by (simp_all only: pow2_le_of_int of_int_less_pow2)
  from bitlen_bounds [OF q] have bq: "(2::rat) ^ (?bq - 1) \<le> of_int q" "of_int q < (2::rat) ^ ?bq"
    unfolding sub by (simp_all only: pow2_le_of_int of_int_less_pow2)
  have rp: "(0::rat) < of_int p" and rq: "(0::rat) < of_int q" using p q by simp_all
  have up: "x < pow2 (bitlen p - bitlen q + 1)"
  proof -
    have "x < 2 ^ ?bp / of_int q"
      unfolding x using bp(2) rq by (rule divide_strict_right_mono)
    also have "\<dots> \<le> 2 ^ ?bp / 2 ^ (?bq - 1)"
      using bq(1) rq by (intro divide_left_mono) simp_all
    also have "\<dots> = pow2 (int ?bp - int (?bq - 1))" by (simp only: pow2_diff)
    also have "int ?bp - int (?bq - 1) = bitlen p - bitlen q + 1" using pos e by linarith
    finally show ?thesis .
  qed
  have low: "pow2 (bitlen p - bitlen q - 1) \<le> x"
  proof -
    have "bitlen p - bitlen q - 1 = int (?bp - 1) - int ?bq" using pos e by linarith
    then have "pow2 (bitlen p - bitlen q - 1) = 2 ^ (?bp - 1) / 2 ^ ?bq" by (simp only: pow2_diff)
    also have "\<dots> \<le> of_int p / 2 ^ ?bq"
      using bp(1) by (intro divide_right_mono) simp_all
    also have "\<dots> \<le> of_int p / of_int q"
      using bq(2) rp rq by (intro divide_left_mono) simp_all
    finally show ?thesis unfolding x .
  qed
  show ?thesis
  proof (cases "pow2 (bitlen p - bitlen q) \<le> x")
    case True
    with up show ?thesis by (simp add: ilog2_def pq)
  next
    case False
    then have "x < pow2 (bitlen p - bitlen q)" by simp
    with low False show ?thesis by (simp add: ilog2_def pq)
  qed
qed


lemma pow2_pos: "0 < pow2 e"
  by (simp add: pow2_def)

lemma round_half_even_near: "\<bar>of_int (round_half_even x) - x\<bar> \<le> 1 / 2"
proof -
  have "of_int \<lfloor>x\<rfloor> \<le> x" "x < of_int \<lfloor>x\<rfloor> + 1" by linarith+
  then show ?thesis
    by (auto simp: round_half_even_def Let_def abs_le_iff)
qed

lemma f32_round_error:
  assumes "x \<noteq> 0"
  shows "\<bar>f32_round x - x\<bar> \<le> pow2 (max (ilog2 \<bar>x\<bar>) (- 126) - 23) / 2"
proof -
  let ?ulp = "pow2 (max (ilog2 \<bar>x\<bar>) (- 126) - 23)"
  have u: "0 < ?ulp" by (rule pow2_pos)
  have "f32_round x - x = (of_int (round_half_even (x / ?ulp)) - x / ?ulp) * ?ulp"
    using assms u by (simp add: f32_round_def Let_def algebra_simps)
  then have "\<bar>f32_round x - x\<bar> = \<bar>of_int (round_half_even (x / ?ulp)) - x / ?ulp\<bar> * ?ulp"
    using u by (simp add: abs_mult)
  also have "\<dots> \<le> 1 / 2 * ?ulp"
    using round_half_even_near [of "x / ?ulp"] u by (intro mult_right_mono) simp_all
  finally show ?thesis by simp
qed

text \<open>Known binary32 values: 0.025, 0.075, 1/3, and two ties above \<open>2 ^ 24\<close>.\<close>

lemma f32_examples:
  "f32_div 1 40 = 13421773 / 2 ^ 29"
  "f32_div 3 40 = 5033165 / 2 ^ 26"
  "f32_round (1 / 3) = 11184811 / 2 ^ 25"
  "f32_round (16777217) = 16777216"
  "f32_round (16777219) = 16777220"
  by code_simp+

section \<open>Properties of the battery percentage\<close>

lemma div_bounds: "0 \<le> (a::int) \<Longrightarrow> a \<le> b * c \<Longrightarrow> 0 < c \<Longrightarrow> 0 \<le> a div c \<and> a div c \<le> b"
proof -
  assume a: "0 \<le> a" "a \<le> b * c" "0 < c"
  have "a div c \<le> (b * c) div c" using a by (intro zdiv_mono1) auto
  then have "a div c \<le> b" using a by simp
  moreover have "0 \<le> a div c" using a by (simp add: pos_imp_zdiv_nonneg_iff)
  ultimately show ?thesis by simp
qed

lemma segment_1: "3000 \<le> v \<Longrightarrow> v \<le> 3300 \<Longrightarrow> calculateBatteryPercentage v = ((v - 3000) * 5) div 300"
proof -
  assume a: "3000 \<le> v" "v \<le> 3300"
  have b: "0 \<le> ((v - 3000) * 5) div 300 \<and> ((v - 3000) * 5) div 300 \<le> 5"
    using a by (intro div_bounds) simp_all
  consider "v = 3000" | "v = 3300" | "3000 < v" "v < 3300" using a by linarith
  then show ?thesis
  proof cases
    case 3
    with b show ?thesis by (simp add: calculateBatteryPercentage_def)
  qed (simp_all add: calculateBatteryPercentage_def)
qed

lemma segment_2: "3300 \<le> v \<Longrightarrow> v \<le> 3600 \<Longrightarrow> calculateBatteryPercentage v = 5 + ((v - 3300) * 15) div 300"
proof -
  assume a: "3300 \<le> v" "v \<le> 3600"
  have b: "0 \<le> ((v - 3300) * 15) div 300 \<and> ((v - 3300) * 15) div 300 \<le> 15"
    using a by (intro div_bounds) simp_all
  consider "v = 3600" | "v < 3600" using a by linarith
  then show ?thesis
  proof cases
    case 2
    with a b show ?thesis by (simp add: calculateBatteryPercentage_def)
  qed (simp_all add: calculateBatteryPercentage_def)
qed

lemma segment_3: "3600 \<le> v \<Longrightarrow> v \<le> 3700 \<Longrightarrow> calculateBatteryPercentage v = 20 + ((v - 3600) * 20) div 100"
proof -
  assume a: "3600 \<le> v" "v \<le> 3700"
  have b: "0 \<le> ((v - 3600) * 20) div 100 \<and> ((v - 3600) * 20) div 100 \<le> 20"
    using a by (intro div_bounds) simp_all
  consider "v = 3700" | "v < 3700" using a by linarith
  then show ?thesis
  proof cases
    case 2
    with a b show ?thesis by (simp add: calculateBatteryPercentage_def)
  qed (simp_all add: calculateBatteryPercentage_def)
qed

lemma segment_4: "3700 \<le> v \<Longrightarrow> v \<le> 3800 \<Longrightarrow> calculateBatteryPercentage v = 40 + ((v - 3700) * 20) div 100"
proof -
  assume a: "3700 \<le> v" "v \<le> 3800"
  have b: "0 \<le> ((v - 3700) * 20) div 100 \<and> ((v - 3700) * 20) div 100 \<le> 20"
    using a by (intro div_bounds) simp_all
  consider "v = 3800" | "v < 3800" using a by linarith
  then show ?thesis
  proof cases
    case 2
    with a b show ?thesis by (simp add: calculateBatteryPercentage_def)
  qed (simp_all add: calculateBatteryPercentage_def)
qed

lemma segment_5: "3800 \<le> v \<Longrightarrow> v \<le> 4000 \<Longrightarrow> calculateBatteryPercentage v = 60 + ((v - 3800) * 25) div 200"
proof -
  assume a: "3800 \<le> v" "v \<le> 4000"
  have b: "0 \<le> ((v - 3800) * 25) div 200 \<and> ((v - 3800) * 25) div 200 \<le> 25"
    using a by (intro div_bounds) simp_all
  consider "v = 4000" | "v < 4000" using a by linarith
  then show ?thesis
  proof cases
    case 2
    with a b show ?thesis by (simp add: calculateBatteryPercentage_def)
  qed (simp_all add: calculateBatteryPercentage_def)
qed

lemma segment_6: "4000 \<le> v \<Longrightarrow> v \<le> 4200 \<Longrightarrow> calculateBatteryPercentage v = 85 + ((v - 4000) * 15) div 200"
proof -
  assume a: "4000 \<le> v" "v \<le> 4200"
  have b: "0 \<le> ((v - 4000) * 15) div 200 \<and> ((v - 4000) * 15) div 200 \<le> 15"
    using a by (intro div_bounds) simp_all
  consider "v = 4200" | "v < 4200" using a by linarith
  then show ?thesis
  proof cases
    case 2
    with a b show ?thesis by (simp add: calculateBatteryPercentage_def)
  qed (simp_all add: calculateBatteryPercentage_def)
qed

lemma div_step: "0 \<le> k \<Longrightarrow> 0 < c \<Longrightarrow> ((v - a) * k) div c \<le> ((v + 1 - a) * k) div (c::int)"
  by (intro zdiv_mono1 mult_right_mono) simp_all

lemma percentage_step: "calculateBatteryPercentage v \<le> calculateBatteryPercentage (v + 1)"
proof -
  consider "v < 3000" | "3000 \<le> v" "v < 3300" | "3300 \<le> v" "v < 3600" | "3600 \<le> v" "v < 3700"
    | "3700 \<le> v" "v < 3800" | "3800 \<le> v" "v < 4000" | "4000 \<le> v" "v < 4200" | "4200 \<le> v"
    by linarith
  then show ?thesis
  proof cases
    case 1
    then show ?thesis by (simp add: calculateBatteryPercentage_def)
  next
    case 2
    then show ?thesis using div_step [of 5 300 v 3000] by (simp add: segment_1)
  next
    case 3
    then show ?thesis using div_step [of 15 300 v 3300] by (simp add: segment_2)
  next
    case 4
    then show ?thesis using div_step [of 20 100 v 3600] by (simp add: segment_3)
  next
    case 5
    then show ?thesis using div_step [of 20 100 v 3700] by (simp add: segment_4)
  next
    case 6
    then show ?thesis using div_step [of 25 200 v 3800] by (simp add: segment_5)
  next
    case 7
    then show ?thesis using div_step [of 15 200 v 4000] by (simp add: segment_6)
  next
    case 8
    then show ?thesis by (simp add: calculateBatteryPercentage_def)
  qed
qed

lemma percentage_mono_nat: "calculateBatteryPercentage v \<le> calculateBatteryPercentage (v + int n)"
proof (induction n)
  case 0
  show ?case by simp
next
  case (Suc n)
  have "calculateBatteryPercentage (v + int n) \<le> calculateBatteryPercentage (v + int n + 1)"
    by (rule percentage_step)
  moreover have "v + int (Suc n) = v + int n + 1" by simp
  ultimately show ?case using Suc by (simp only: order_trans)
qed

lemma percentage_mono: "v1 \<le> v2 \<Longrightarrow> calculateBatteryPercentage v1 \<le> calculateBatteryPercentage v2"
  using percentage_mono_nat [of v1 "nat (v2 - v1)"] by simp

lemma floor_interpolate:
  "\<lfloor>interpolate a b v\<rfloor> = snd a + ((v - fst a) * (snd b - snd a)) div (fst b - fst a)"
proof -
  have "interpolate a b v =
      of_int ((v - fst a) * (snd b - snd a)) / of_int (fst b - fst a) + of_int (snd a)"
    by (simp add: interpolate_def)
  then have "\<lfloor>interpolate a b v\<rfloor> =
      \<lfloor>(of_int ((v - fst a) * (snd b - snd a)) / of_int (fst b - fst a) :: rat)\<rfloor> + snd a"
    by (simp only: floor_add_int)
  then show ?thesis
    by (simp only: floor_divide_of_int_eq add.commute)
qed

text \<open>
  Claim C8.  For every voltage: below 3000 mV the percentage is 0, from 4200 mV on it is
  100, and the percentage never decreases when the voltage grows.
\<close>

theorem battery_clamped_monotone:
  "(v < 3000 \<longrightarrow> calculateBatteryPercentage v = 0) \<and>
   (v \<ge> 4200 \<longrightarrow> calculateBatteryPercentage v = 100) \<and>
   (v1 \<le> v2 \<longrightarrow> calculateBatteryPercentage v1 \<le> calculateBatteryPercentage v2)"
  using percentage_mono [of v1 v2] by (simp add: calculateBatteryPercentage_def)

theorem battery_clamped_monotone_witness:
  "(2999::int) < 3000 \<and> calculateBatteryPercentage 2999 = 0 \<and>
   (4200::int) \<ge> 4200 \<and> calculateBatteryPercentage 4200 = 100 \<and>
   (3450::int) \<le> 3900 \<and> calculateBatteryPercentage 3450 \<le> calculateBatteryPercentage 3900"
  using battery_clamped_monotone [of 2999 3450 3900] battery_clamped_monotone [of 4200 3450 3900]
  by simp

text \<open>
  Claim C9.  At each of the seven breakpoints the percentage is the anchored value, and
  on each of the six segments between consecutive breakpoints (end points included) the
  percentage is the linear interpolant through the two breakpoints, with the fraction
  of a percent dropped as integer division does.
\<close>

theorem battery_segments:
  "(\<forall>(v, p) \<in> set breakpoints. calculateBatteryPercentage v = p) \<and>
   (\<forall>(a, b) \<in> set segments. \<forall>v. fst a \<le> v \<and> v \<le> fst b \<longrightarrow>
      calculateBatteryPercentage v = \<lfloor>interpolate a b v\<rfloor>)"
proof
  show "\<forall>(v, p) \<in> set breakpoints. calculateBatteryPercentage v = p"
    by (simp add: breakpoints_def calculateBatteryPercentage_def)
  show "\<forall>(a, b) \<in> set segments. \<forall>v. fst a \<le> v \<and> v \<le> fst b \<longrightarrow>
      calculateBatteryPercentage v = \<lfloor>interpolate a b v\<rfloor>"
    unfolding floor_interpolate
    by (simp add: segments_def breakpoints_def segment_1 segment_2 segment_3 segment_4 segment_5 segment_6)
qed

theorem battery_segments_witness:
  "(3600, 20) \<in> set breakpoints \<and> calculateBatteryPercentage 3600 = 20 \<and>
   ((3300, 5), (3600, 20)) \<in> set segments \<and> (3300::int) \<le> 3450 \<and> (3450::int) \<le> 3600 \<and>
   interpolate (3300, 5) (3600, 20) 3450 = 25 / 2 \<and> calculateBatteryPercentage 3450 = 12"
proof -
  have b: "(3600, 20) \<in> set breakpoints" by (simp add: breakpoints_def)
  have s: "((3300, 5), (3600, 20)) \<in> set segments" by (simp add: segments_def breakpoints_def)
  have i: "interpolate (3300, 5) (3600, 20) 3450 = 25 / 2" by (simp add: interpolate_def)
  from battery_segments b have 1: "calculateBatteryPercentage 3600 = 20" by fastforce
  from battery_segments s have "\<forall>v. 3300 \<le> v \<and> v \<le> 3600 \<longrightarrow>
      calculateBatteryPercentage v = \<lfloor>interpolate (3300, 5) (3600, 20) v\<rfloor>" by fastforce
  then have "calculateBatteryPercentage 3450 = \<lfloor>interpolate (3300, 5) (3600, 20) 3450\<rfloor>" by simp
  also have "\<dots> = 12" by (simp add: floor_interpolate)
  finally have 2: "calculateBatteryPercentage 3450 = 12" .
  from b s i 1 2 show ?thesis by simp
qed

section \<open>Properties of the frame decoder\<close>

lemma process_packet_buffer [simp]:
  "rx_buffer (process_packet s) = rx_buffer s"
  "buffer_index (process_packet s) = buffer_index s"
  "header_found (process_packet s) = header_found s"
  by (simp_all add: process_packet_def Let_def)

lemma pm25_inv_init: "length (rx_buffer s) = 4 \<Longrightarrow> pm25_inv (pm25_init s)"
  by (simp add: pm25_inv_def pm25_init_def)

lemma pm25_inv_byte:
  assumes "pm25_inv s"
  shows "\<exists>s'. pm25_update_byte s b = Inr s' \<and> pm25_inv s'"
proof (cases "header_found s")
  case False
  with assms show ?thesis
    by (simp add: pm25_update_byte_def store_byte_def pm25_inv_def)
next
  case True
  with assms have i: "1 \<le> buffer_index s" "buffer_index s \<le> 3" "length (rx_buffer s) = 4"
    "rx_buffer s ! 0 = PM25_HEADER"
    by (simp_all add: pm25_inv_def)
  then have n: "nat (buffer_index s) \<noteq> 0" by simp
  show ?thesis
    using True i n
    by (simp add: pm25_update_byte_def store_byte_def pm25_inv_def Let_def PM25_PACKET_SIZE_def)
qed

lemma pm25_inv_update:
  "pm25_inv s \<Longrightarrow> \<exists>s'. pm25_update s bs = Inr s' \<and> pm25_inv s'"
proof (induction bs arbitrary: s)
  case Nil
  then show ?case by simp
next
  case (Cons b bs)
  from pm25_inv_byte [OF Cons.prems] obtain s1 where
    1: "pm25_update_byte s b = Inr s1" and 2: "pm25_inv s1" by blast
  from Cons.IH [OF 2] 1 show ?case by simp
qed

text \<open>
  Claim C10.  From the initial state, whatever bytes arrive, no store leaves the four
  cells of the receive buffer (the run ends in \<open>Inr\<close>, never in a fault), and between
  calls a found header means that the index is 1, 2 or 3 and that cell 0 holds the
  header byte.
\<close>

theorem decoder_buffer_safe:
  "length (rx_buffer s0) = 4 \<Longrightarrow>
     \<exists>s. pm25_update (pm25_init s0) bs = Inr s \<and> length (rx_buffer s) = 4 \<and>
       (header_found s \<longrightarrow>
          1 \<le> buffer_index s \<and> buffer_index s \<le> 3 \<and> rx_buffer s ! 0 = PM25_HEADER)"
  using pm25_inv_update [OF pm25_inv_init, of s0 bs] by (simp add: pm25_inv_def)

theorem decoder_buffer_safe_witness:
  "length (rx_buffer pm25_static) = 4 \<and>
   pm25_update (pm25_init pm25_static) [0xA5, 0xA5, 0xA5, 0xA5, 0xA5, 0xFF] =
     Inr (pm25_static\<lparr>rx_buffer := [0xA5, 0xFF, 0xA5, 0xA5], buffer_index := 2, header_found := True\<rparr>)"
proof -
  have l: "length (rx_buffer pm25_static) = 4" by (simp add: pm25_static_def)
  from decoder_buffer_safe [OF l, of "[0xA5, 0xA5, 0xA5, 0xA5, 0xA5, 0xFF]"]
  obtain s where "pm25_update (pm25_init pm25_static) [0xA5, 0xA5, 0xA5, 0xA5, 0xA5, 0xFF] = Inr s"
    by blast
  moreover have "pm25_update (pm25_init pm25_static) [0xA5, 0xA5, 0xA5, 0xA5, 0xA5, 0xFF] =
     Inr (pm25_static\<lparr>rx_buffer := [0xA5, 0xFF, 0xA5, 0xA5], buffer_index := 2, header_found := True\<rparr>)"
    by code_simp
  ultimately show ?thesis using l by simp
qed

lemma validate_packet_iff:
  "validate_packet p \<longleftrightarrow>
     uint (checksum p) = (uint (header p) + uint (dataH p) + uint (dataL p)) AND 0x7F"
proof -
  let ?k = "(uint (header p) + uint (dataH p) + uint (dataL p)) AND 0x7F"
  have "0 \<le> ?k" by simp
  moreover have "?k \<le> 0x7F" by (rule AND_upper2) simp
  ultimately have "uint (word_of_int ?k :: u8) = ?k"
    by (simp add: uint_word_of_int)
  then show ?thesis
    unfolding validate_packet_def Let_def word_uint_eq_iff by auto
qed

lemma store_last:
  "length (rx_buffer s) = 4 \<Longrightarrow> header_found s \<Longrightarrow> buffer_index s = 3 \<Longrightarrow>
   pm25_update_byte s b =
     Inr ((process_packet (s\<lparr>rx_buffer := (rx_buffer s)[3 := b], buffer_index := 4\<rparr>))
            \<lparr>buffer_index := 0, header_found := False\<rparr>)"
  by (simp add: pm25_update_byte_def store_byte_def Let_def PM25_PACKET_SIZE_def)

text \<open>
  Claim C4.  When the fourth byte completes a frame whose checksum byte differs from
  \<open>(header + dataH + dataL) & 0x7F\<close>, the stored concentration and the data-ready flag
  keep their values, the decoder is back at header search with index 0, and a header
  byte arriving next is recognised.
\<close>

theorem checksum_mismatch_discards:
  assumes "length (rx_buffer s) = 4" and "header_found s" and "buffer_index s = 3"
    and "uint b \<noteq> (uint (rx_buffer s ! 0) + uint (rx_buffer s ! 1) + uint (rx_buffer s ! 2)) AND 0x7F"
  shows "\<exists>s'. pm25_update_byte s b = Inr s' \<and>
           pm25_concentration s' = pm25_concentration s \<and>
           pm25_data_ready s' = pm25_data_ready s \<and>
           \<not> header_found s' \<and> buffer_index s' = 0 \<and>
           (\<exists>s''. pm25_update_byte s' PM25_HEADER = Inr s'' \<and> header_found s'' \<and>
              buffer_index s'' = 1 \<and> rx_buffer s'' ! 0 = PM25_HEADER)"
proof -
  let ?buf = "(rx_buffer s)[3 := b]"
  have "\<not> validate_packet (packet_of ?buf)"
    using assms by (simp add: validate_packet_iff packet_of_def)
  then have p: "process_packet (s\<lparr>rx_buffer := ?buf, buffer_index := 4\<rparr>) =
      s\<lparr>rx_buffer := ?buf, buffer_index := 4\<rparr>"
    by (simp add: process_packet_def)
  have 1: "pm25_update_byte s b = Inr (s\<lparr>rx_buffer := ?buf, buffer_index := 0, header_found := False\<rparr>)"
    using assms(1-3) by (simp add: store_last p)
  have 2: "pm25_update_byte (s\<lparr>rx_buffer := ?buf, buffer_index := 0, header_found := False\<rparr>) PM25_HEADER =
      Inr (s\<lparr>rx_buffer := ?buf[0 := PM25_HEADER], buffer_index := 1, header_found := True\<rparr>)"
    using assms(1) by (simp add: pm25_update_byte_def store_byte_def)
  show ?thesis using assms(1) by (simp add: 1 2)
qed

theorem checksum_mismatch_discards_witness:
  "pm25_update (pm25_init pm25_static) [0xA5, 0x01, 0x2C] =
     Inr (pm25_static\<lparr>rx_buffer := [0xA5, 0x01, 0x2C, 0], buffer_index := 3, header_found := True\<rparr>) \<and>
   pm25_update_byte
     (pm25_static\<lparr>rx_buffer := [0xA5, 0x01, 0x2C, 0], buffer_index := 3, header_found := True\<rparr>) 0x9E =
     Inr (pm25_static\<lparr>rx_buffer := [0xA5, 0x01, 0x2C, 0x9E]\<rparr>)"
proof -
  let ?s = "pm25_static\<lparr>rx_buffer := [0xA5, 0x01, 0x2C, 0], buffer_index := 3, header_found := True\<rparr>"
  have h: "length (rx_buffer ?s) = 4" "header_found ?s" "buffer_index ?s = 3"
    "uint (0x9E :: u8) \<noteq> (uint (rx_buffer ?s ! 0) + uint (rx_buffer ?s ! 1) + uint (rx_buffer ?s ! 2)) AND 0x7F"
    by (simp_all add: pm25_static_def)
  from checksum_mismatch_discards [OF h] obtain s' where
    "pm25_update_byte ?s 0x9E = Inr s'" "pm25_concentration s' = pm25_concentration ?s"
    "pm25_data_ready s' = pm25_data_ready ?s" "\<not> header_found s'" "buffer_index s' = 0"
    by blast
  moreover have "pm25_update_byte ?s 0x9E = Inr (pm25_static\<lparr>rx_buffer := [0xA5, 0x01, 0x2C, 0x9E]\<rparr>)"
    by code_simp
  moreover have "pm25_update (pm25_init pm25_static) [0xA5, 0x01, 0x2C] = Inr ?s"
    by code_simp
  ultimately show ?thesis by simp
qed


lemma concentration_value: "uint (calculate_concentration dH dL) = uint dH * 128 + uint dL"
proof -
  have "uint dH < 256" "uint dL < 256" using uint_bounded [of dH] uint_bounded [of dL] by simp_all
  moreover have "0 \<le> uint dH" "0 \<le> uint dL" by simp_all
  ultimately have "0 \<le> uint dH * 128 + uint dL" "uint dH * 128 + uint dL < 65536" by linarith+
  then show ?thesis
    unfolding calculate_concentration_def by (subst uint_word_of_int) simp
qed

lemma concentration_le: "uint (calculate_concentration dH dL) \<le> 32895"
proof -
  have "uint dH < 256" "uint dL < 256" using uint_bounded [of dH] uint_bounded [of dL] by simp_all
  then show ?thesis unfolding concentration_value by linarith
qed

lemma process_packet_le:
  "uint (pm25_concentration s) \<le> 32895 \<Longrightarrow> uint (pm25_concentration (process_packet s)) \<le> 32895"
  by (simp add: process_packet_def Let_def concentration_le)

lemma update_byte_le:
  "pm25_update_byte s b = Inr s' \<Longrightarrow> uint (pm25_concentration s) \<le> 32895 \<Longrightarrow>
   uint (pm25_concentration s') \<le> 32895"
  by (auto simp: pm25_update_byte_def store_byte_def Let_def process_packet_le
           split: if_splits sum.splits)

lemma frames_le:
  "frames s bs = Inr (out, s') \<Longrightarrow> uint (pm25_concentration s) \<le> 32895 \<Longrightarrow>
   \<forall>c \<in> set out. uint c \<le> 32895"
proof (induction bs arbitrary: s out)
  case Nil
  then show ?case by simp
next
  case (Cons b bs)
  from Cons.prems(1) obtain s1 where 1: "pm25_update_byte s b = Inr s1"
    by (auto split: sum.splits)
  let ?s2 = "s1\<lparr>pm25_data_ready := False\<rparr>"
  from Cons.prems(1) 1 obtain out' where 2: "frames ?s2 bs = Inr (out', s')"
    and 3: "out = (if pm25_data_ready s1 then [pm25_concentration s1] else []) @ out'"
    by (auto simp: pm25_is_data_ready_def pm25_get_value_def split: sum.splits)
  have 4: "uint (pm25_concentration s1) \<le> 32895"
    using update_byte_le [OF 1 Cons.prems(2)] .
  then have "\<forall>c \<in> set out'. uint c \<le> 32895"
    using Cons.IH [OF 2] by simp
  with 3 4 show ?case by auto
qed

text \<open>
  Claim C1, amended.  When the fourth byte completes a frame that passes the checksum,
  the concentration stored is \<open>dataH * 128 + dataL\<close> of the two received bytes, taken as
  the 8-bit values they are: at most 32895 in general, and within 0..16383 when both
  data bytes are below 128.
\<close>

theorem concentration_range:
  assumes "length (rx_buffer s) = 4" and "header_found s" and "buffer_index s = 3"
    and "uint b = (uint (rx_buffer s ! 0) + uint (rx_buffer s ! 1) + uint (rx_buffer s ! 2)) AND 0x7F"
  shows "\<exists>s'. pm25_update_byte s b = Inr s' \<and> pm25_data_ready s' \<and>
           uint (pm25_concentration s') = uint (rx_buffer s ! 1) * 128 + uint (rx_buffer s ! 2) \<and>
           uint (pm25_concentration s') \<le> 32895 \<and>
           (rx_buffer s ! 1 < 128 \<and> rx_buffer s ! 2 < 128 \<longrightarrow>
              uint (pm25_concentration s') \<le> 16383)"
proof -
  let ?buf = "(rx_buffer s)[3 := b]"
  let ?c = "calculate_concentration (rx_buffer s ! 1) (rx_buffer s ! 2)"
  have "validate_packet (packet_of ?buf)"
    using assms by (simp add: validate_packet_iff packet_of_def)
  then have p: "process_packet (s\<lparr>rx_buffer := ?buf, buffer_index := 4\<rparr>) =
      s\<lparr>rx_buffer := ?buf, buffer_index := 4, pm25_concentration := ?c, pm25_data_ready := True\<rparr>"
    using assms(1) by (simp add: process_packet_def Let_def) (simp add: packet_of_def)
  have 1: "pm25_update_byte s b = Inr (s\<lparr>rx_buffer := ?buf, buffer_index := 0,
      pm25_concentration := ?c, pm25_data_ready := True, header_found := False\<rparr>)"
    using assms(1-3) by (simp add: store_last p)
  have 2: "rx_buffer s ! 1 < 128 \<and> rx_buffer s ! 2 < 128 \<longrightarrow> uint ?c \<le> 16383"
  proof
    assume "rx_buffer s ! 1 < 128 \<and> rx_buffer s ! 2 < 128"
    then have "uint (rx_buffer s ! 1) < 128" "uint (rx_buffer s ! 2) < 128"
      by (simp_all add: word_less_def)
    then show "uint ?c \<le> 16383" unfolding concentration_value by linarith
  qed
  show ?thesis using 2 by (simp add: 1 concentration_value [symmetric] concentration_le)
qed

theorem concentration_range_witness:
  "pm25_update_byte
     (pm25_static\<lparr>rx_buffer := [0xA5, 0x01, 0x2C, 0], buffer_index := 3, header_found := True\<rparr>) 0x52 =
     Inr (pm25_static\<lparr>rx_buffer := [0xA5, 0x01, 0x2C, 0x52], pm25_concentration := 172,
            pm25_data_ready := True\<rparr>) \<and>
   (0x01 :: u8) < 128 \<and> (0x2C :: u8) < 128 \<and> uint (172 :: u16) \<le> 16383"
proof -
  let ?s = "pm25_static\<lparr>rx_buffer := [0xA5, 0x01, 0x2C, 0], buffer_index := 3, header_found := True\<rparr>"
  have h: "length (rx_buffer ?s) = 4" "header_found ?s" "buffer_index ?s = 3"
    "uint (0x52 :: u8) = (uint (rx_buffer ?s ! 0) + uint (rx_buffer ?s ! 1) + uint (rx_buffer ?s ! 2)) AND 0x7F"
    by (simp_all add: pm25_static_def)
  from concentration_range [OF h] obtain s' where
    s': "pm25_update_byte ?s 0x52 = Inr s'" "pm25_data_ready s'"
    "rx_buffer ?s ! 1 < 128 \<and> rx_buffer ?s ! 2 < 128 \<longrightarrow> uint (pm25_concentration s') \<le> 16383"
    by blast
  moreover have "pm25_update_byte ?s 0x52 =
      Inr (pm25_static\<lparr>rx_buffer := [0xA5, 0x01, 0x2C, 0x52], pm25_concentration := 172,
             pm25_data_ready := True\<rparr>)"
    by code_simp
  ultimately show ?thesis by simp
qed

text \<open>
  Claim C1 as stated fails: the frame \<open>A5 FF 00 24\<close> passes the checksum and yields
  32640.
\<close>

theorem concentration_range_counterexample:
  "frames (pm25_init pm25_static) [0xA5, 0xFF, 0x00, 0x24] =
     Inr ([32640], pm25_static\<lparr>rx_buffer := [0xA5, 0xFF, 0x00, 0x24], pm25_concentration := 32640\<rparr>) \<and>
   validate_packet (packet_of [0xA5, 0xFF, 0x00, 0x24]) \<and>
   \<not> uint (32640 :: u16) \<le> 16383"
  by code_simp

text \<open>
  Claim C2 as stated fails: the last byte \<open>0x9E\<close> is not the checksum of
  \<open>A5 01 2C\<close>, which is \<open>0x52\<close>, so the sequence yields no frame.
\<close>

theorem noise_then_frame_counterexample:
  "frames (pm25_init pm25_static) [0x00, 0x00, 0xA5, 0x01, 0x2C, 0x9E] =
     Inr ([], pm25_static\<lparr>rx_buffer := [0xA5, 0x01, 0x2C, 0x9E]\<rparr>) \<and>
   \<not> validate_packet (packet_of [0xA5, 0x01, 0x2C, 0x9E])"
  by code_simp

lemma list4: "length xs = 4 \<Longrightarrow> \<exists>a b c d. xs = [a, b, c, d]"
  by (auto simp: length_Suc_conv numeral_eq_Suc)

text \<open>
  Claim C2, amended.  From the initial state the two leading zero bytes leave the
  decoder unchanged, and the sequence \<open>00 00 A5 01 2C 52\<close> yields exactly one frame, of
  concentration 172.
\<close>

theorem noise_then_frame:
  assumes "length (rx_buffer s0) = 4"
  shows "pm25_update (pm25_init s0) [0x00, 0x00] = Inr (pm25_init s0) \<and>
         frames (pm25_init s0) [0x00, 0x00, 0xA5, 0x01, 0x2C, 0x52] =
           Inr ([172], (pm25_init s0)\<lparr>rx_buffer := [0xA5, 0x01, 0x2C, 0x52], pm25_concentration := 172\<rparr>)"
proof -
  from list4 [OF assms] obtain a b c d where buf: "rx_buffer s0 = [a, b, c, d]" by blast
  have v: "validate_packet (packet_of [0xA5, 0x01, 0x2C, 0x52])"
    by (simp add: validate_packet_def packet_of_def)
  have c: "calculate_concentration 0x01 0x2C = 172"
    by (simp add: calculate_concentration_def)
  show ?thesis
    using v by (simp add: pm25_init_def pm25_update_byte_def store_byte_def PM25_HEADER_def
        PM25_PACKET_SIZE_def pm25_is_data_ready_def pm25_get_value_def process_packet_def buf c
        packet_of_def Let_def)
qed

theorem noise_then_frame_witness:
  "length (rx_buffer pm25_static) = 4 \<and>
   frames (pm25_init pm25_static) [0x00, 0x00, 0xA5, 0x01, 0x2C, 0x52] =
     Inr ([172], pm25_static\<lparr>rx_buffer := [0xA5, 0x01, 0x2C, 0x52], pm25_concentration := 172\<rparr>)"
proof -
  have l: "length (rx_buffer pm25_static) = 4" by (simp add: pm25_static_def)
  have i: "pm25_init pm25_static = pm25_static" by (simp add: pm25_init_def pm25_static_def)
  show ?thesis using noise_then_frame [OF l] l by (simp add: i)
qed

section \<open>Properties of the brightness engine\<close>

lemma motion_timeout_step_fields [simp]:
  "currentBrightness (motion_timeout_step t s) = currentBrightness s"
  "baseBrightness (motion_timeout_step t s) = baseBrightness s"
  "lastMotionTime (motion_timeout_step t s) = lastMotionTime s"
  "brightnessStep (motion_timeout_step t s) = brightnessStep s"
  "isRising (motion_timeout_step t s) = isRising s"
  "isFalling (motion_timeout_step t s) = isFalling s"
  "startBrightness (motion_timeout_step t s) = startBrightness s"
  by (simp_all add: motion_timeout_step_def)

lemma target_step_fields [simp]:
  "isMove (target_step s) = isMove s"
  "currentBrightness (target_step s) = currentBrightness s"
  "baseBrightness (target_step s) = baseBrightness s"
  "lastMotionTime (target_step s) = lastMotionTime s"
  "brightnessStep (target_step s) = brightnessStep s"
  "isRising (target_step s) = isRising s"
  "isFalling (target_step s) = isFalling s"
  "startBrightness (target_step s) = startBrightness s"
  by (simp_all add: target_step_def)

lemma restart_step_fields [simp]:
  "isMove (restart_step s) = isMove s"
  "currentBrightness (restart_step s) = currentBrightness s"
  "targetBrightness (restart_step s) = targetBrightness s"
  "baseBrightness (restart_step s) = baseBrightness s"
  "lastMotionTime (restart_step s) = lastMotionTime s"
  by (simp_all add: restart_step_def)

lemma curve_step_fields [simp]:
  "isMove (curve_step s) = isMove s"
  "targetBrightness (curve_step s) = targetBrightness s"
  "baseBrightness (curve_step s) = baseBrightness s"
  "lastMotionTime (curve_step s) = lastMotionTime s"
  "startBrightness (curve_step s) = startBrightness s"
  by (simp_all add: curve_step_def Let_def)

lemma updateBrightness_fst [simp]:
  "fst (updateBrightness t s) = currentBrightness (snd (updateBrightness t s))"
  by (simp add: updateBrightness_def steps_1_to_3_def Let_def)

lemma updateBrightness_isMove:
  "isMove (snd (updateBrightness t s)) = (isMove s \<and> \<not> t - lastMotionTime s > motionTimeout)"
  by (auto simp: updateBrightness_def steps_1_to_3_def Let_def motion_timeout_step_def)

lemma updateBrightness_lastMotionTime [simp]:
  "lastMotionTime (snd (updateBrightness t s)) = lastMotionTime s"
  by (simp add: updateBrightness_def steps_1_to_3_def Let_def)

text \<open>
  Claim C5.  After a trigger at \<open>t0\<close> (from the motion sensor or from key 1), the
  motion flag read by a tick at \<open>t0 + timeout - 1\<close> is set and the one read by a tick
  at \<open>t0 + timeout + 1\<close> is cleared, also when the second tick follows the first; after
  key 2 cleared the flag, the next tick reads it cleared at any time.  The times are
  32-bit and wrap around.
\<close>

theorem motion_latch:
  "isMove (snd (updateBrightness (t0 + motionTimeout - 1) (motionISR t0 s))) \<and>
   \<not> isMove (snd (updateBrightness (t0 + motionTimeout + 1) (motionISR t0 s))) \<and>
   \<not> isMove (snd (updateBrightness (t0 + motionTimeout + 1)
          (snd (updateBrightness (t0 + motionTimeout - 1) (motionISR t0 s))))) \<and>
   isMove (snd (updateBrightness (t0 + motionTimeout - 1) (key1ISR t0 s))) \<and>
   \<not> isMove (snd (updateBrightness (t0 + motionTimeout + 1) (key1ISR t0 s))) \<and>
   \<not> isMove (snd (updateBrightness now (key2ISR (motionISR t0 s)))) \<and>
   \<not> isMove (snd (updateBrightness now (key2ISR (key1ISR t0 s))))"
  by (simp add: updateBrightness_isMove motionISR_def key1ISR_def key2ISR_def motionTimeout_def)

theorem motion_latch_witness:
  "isMove (snd (updateBrightness 903 (motionISR 0xFFFFF000 (brightnessInit brightness_static)))) \<and>
   \<not> isMove (snd (updateBrightness 905 (motionISR 0xFFFFF000 (brightnessInit brightness_static)))) \<and>
   \<not> isMove (snd (updateBrightness 0xFFFFF001
          (key2ISR (motionISR 0xFFFFF000 (brightnessInit brightness_static)))))"
proof -
  have t: "(0xFFFFF000 + motionTimeout - 1 :: u32) = 903"
    "(0xFFFFF000 + motionTimeout + 1 :: u32) = 905"
    by (simp_all add: motionTimeout_def)
  from motion_latch [of "0xFFFFF000" "brightnessInit brightness_static" "0xFFFFF001"]
  show ?thesis unfolding t by blast
qed

lemma restart_step_rising:
  "currentBrightness s < targetBrightness s \<Longrightarrow>
     isRising (restart_step s) \<and> \<not> isFalling (restart_step s)"
  by (auto simp: restart_step_def)

lemma restart_step_falling:
  "targetBrightness s < currentBrightness s \<Longrightarrow>
     isFalling (restart_step s) \<and> \<not> isRising (restart_step s)"
  by (auto simp: restart_step_def)

lemma restart_step_equal:
  "targetBrightness s = currentBrightness s \<Longrightarrow> restart_step s = s"
  by (simp add: restart_step_def)

lemma curve_step_idle:
  "isRising s \<and> \<not> isFalling s \<and> currentBrightness s < targetBrightness s \<or>
   isFalling s \<and> \<not> isRising s \<and> targetBrightness s < currentBrightness s \<or>
   targetBrightness s = currentBrightness s \<Longrightarrow>
   \<not> isRising (curve_step s) \<Longrightarrow> \<not> isFalling (curve_step s) \<Longrightarrow>
   currentBrightness (curve_step s) = targetBrightness (curve_step s)"
  by (auto simp: curve_step_def Let_def split: if_splits)

text \<open>
  Claim C7.  After every call of \<open>updateBrightness\<close>, from any state and at any time:
  when neither the rising nor the falling flag is set, the current brightness is the
  target brightness.
\<close>

theorem idle_at_target:
  "\<not> isRising (snd (updateBrightness t s)) \<and> \<not> isFalling (snd (updateBrightness t s)) \<longrightarrow>
     currentBrightness (snd (updateBrightness t s)) = targetBrightness (snd (updateBrightness t s))"
proof -
  let ?s2 = "target_step (motion_timeout_step t s)"
  let ?s3 = "restart_step ?s2"
  have "isRising ?s3 \<and> \<not> isFalling ?s3 \<and> currentBrightness ?s3 < targetBrightness ?s3 \<or>
        isFalling ?s3 \<and> \<not> isRising ?s3 \<and> targetBrightness ?s3 < currentBrightness ?s3 \<or>
        targetBrightness ?s3 = currentBrightness ?s3"
    using restart_step_rising [of ?s2] restart_step_falling [of ?s2]
    by (cases "currentBrightness ?s2" "targetBrightness ?s2" rule: linorder_cases) simp_all
  from curve_step_idle [OF this] show ?thesis
    by (simp add: updateBrightness_def steps_1_to_3_def Let_def)
qed


theorem idle_at_target_witness:
  "\<not> isRising (snd (updateBrightness 0 (rise_state 0 40 104 True))) \<and>
   \<not> isFalling (snd (updateBrightness 0 (rise_state 0 40 104 True))) \<and>
   currentBrightness (snd (updateBrightness 0 (rise_state 0 40 104 True))) = 110 \<and>
   targetBrightness (snd (updateBrightness 0 (rise_state 0 40 104 True))) = 110"
proof -
  let ?s' = "snd (updateBrightness 0 (rise_state 0 40 104 True))"
  have 1: "\<not> isRising ?s' \<and> \<not> isFalling ?s'" by code_simp
  have 2: "targetBrightness ?s' = 110" by code_simp
  from idle_at_target [of 0 "rise_state 0 40 104 True"] 1
  have "currentBrightness ?s' = targetBrightness ?s'" by blast
  with 1 2 show ?thesis by simp
qed

lemma steps_1_to_3_rising:
  "currentBrightness (steps_1_to_3 t s) < targetBrightness (steps_1_to_3 t s) \<Longrightarrow>
   isRising (steps_1_to_3 t s) \<and> \<not> isFalling (steps_1_to_3 t s)"
  unfolding steps_1_to_3_def
  using restart_step_rising [of "target_step (motion_timeout_step t s)"] by simp

text \<open>
  Claim C3, amended.  When the target exceeds the current brightness after the first
  three steps, the engine is rising; the tick increments the step counter \<open>n\<close> and, while
  \<open>n \<le> 40\<close>, sets the current brightness to the start brightness plus the product
  \<open>(target - start) * (n / 40)\<^sup>2\<close>, computed in single precision and with its fraction
  dropped; once \<open>n > 40\<close> the current brightness is the target and both flags are
  cleared.
\<close>

theorem rising_tick:
  assumes "currentBrightness (steps_1_to_3 t s) < targetBrightness (steps_1_to_3 t s)"
  shows "let s3 = steps_1_to_3 t s; s' = snd (updateBrightness t s);
             n = brightnessStep s3 + 1;
             progress = f32_div (of_int (sint n)) 40
         in isRising s3 \<and> brightnessStep s' = n \<and> targetBrightness s' = targetBrightness s3 \<and>
            (sint n \<le> 40 \<longrightarrow>
               currentBrightness s' = startBrightness s3 +
                 word_of_int (f32_trunc (f32_mul
                   (of_int (uint (targetBrightness s3) - uint (startBrightness s3)))
                   (f32_mul progress progress))) \<and>
               isRising s' \<and> \<not> isFalling s') \<and>
            (40 < sint n \<longrightarrow>
               currentBrightness s' = targetBrightness s3 \<and> \<not> isRising s' \<and> \<not> isFalling s')"
  using assms steps_1_to_3_rising [OF assms]
  by (simp add: updateBrightness_def curve_step_def rising_value_def f32_to_u8_def
      BRIGHTNESS_UP_STEPS_def Let_def)

theorem rising_tick_witness:
  "currentBrightness (steps_1_to_3 0 (rise_state 0 27 50 True))
     < targetBrightness (steps_1_to_3 0 (rise_state 0 27 50 True)) \<and>
   brightnessStep (snd (updateBrightness 0 (rise_state 0 27 50 True))) = 28 \<and>
   sint (28 :: i16) \<le> 40 \<and>
   currentBrightness (snd (updateBrightness 0 (rise_state 0 27 50 True))) = 53"
proof -
  let ?s = "rise_state 0 27 50 True"
  have h: "currentBrightness (steps_1_to_3 0 ?s) < targetBrightness (steps_1_to_3 0 ?s)"
    by code_simp
  have n: "brightnessStep (steps_1_to_3 0 ?s) + 1 = 28" by code_simp
  have "brightnessStep (snd (updateBrightness 0 ?s)) = 28"
    using rising_tick [OF h] by (simp add: Let_def n)
  moreover have "currentBrightness (snd (updateBrightness 0 ?s)) = 53" by code_simp
  ultimately show ?thesis using h by simp
qed

text \<open>
  Claim C3 as stated fails: on the third tick of a rise from 0 to 110 the product is
  \<open>0.61875\<close>, which rounds to 1, and the code leaves the brightness at 0.
\<close>

theorem rising_tick_counterexample:
  "ticks (Finite 50) [0, 50] (brightnessInit brightness_static) = rise_state 0 2 0 True \<and>
   snd (calculatePerceivedBrightness (Finite 50) 100 (rise_state 0 2 0 True)) = rise_state 0 3 0 True \<and>
   uint (currentBrightness (rise_state 0 3 0 True)) = 0 \<and>
   rising_value_rounded 0 110 3 = 1"
  by code_simp

lemma sint_of_nat_16: "n < 32768 \<Longrightarrow> sint (of_nat n :: i16) = int n"
  by (simp add: signed_of_nat signed_take_bit_int_eq_self)

lemma base_50: "calculateBaseBrightness (Finite 50) = 110"
  by (simp add: calculateBaseBrightness_def LUX_THRESHOLD_HIGH_def LUX_THRESHOLD_MID_def
      LUX_THRESHOLD_LOW_def BRIGHTNESS_LOW_LUX_def)

lemma first_tick:
  assumes "currentBrightness s = 0" "\<not> isRising s" "\<not> isFalling s" "\<not> isMove s"
  shows "snd (calculatePerceivedBrightness (Finite 50) t s) =
           rise_state (lastMotionTime s) 1 (rising_value 0 110 1) True"
  using assms
  by (cases s)
     (simp add: calculatePerceivedBrightness_def updateBrightness_def steps_1_to_3_def base_50
      motion_timeout_step_def target_step_def restart_step_def curve_step_def rise_state_def
      BRIGHTNESS_UP_STEPS_def Let_def)

lemma rise_step:
  assumes "n < 40" "c < 110"
  shows "snd (calculatePerceivedBrightness (Finite 50) t (rise_state l (of_nat n) c True)) =
           rise_state l (of_nat (Suc n)) (rising_value 0 110 (of_nat (Suc n))) True"
proof -
  have "sint (of_nat (Suc n) :: i16) = int (Suc n)"
    using assms(1) by (intro sint_of_nat_16) simp
  then have "sint (of_nat n + 1 :: i16) \<le> 40" using assms(1) by (simp add: add.commute)
  then show ?thesis using assms(2)
    by (auto simp add: calculatePerceivedBrightness_def updateBrightness_def steps_1_to_3_def
      base_50 motion_timeout_step_def target_step_def restart_step_def curve_step_def
      rise_state_def BRIGHTNESS_UP_STEPS_def Let_def add.commute)
qed

lemma rise_done:
  "snd (calculatePerceivedBrightness (Finite 50) t (rise_state l k 110 r)) =
     rise_state l k 110 False"
  by (simp add: calculatePerceivedBrightness_def updateBrightness_def steps_1_to_3_def base_50
      motion_timeout_step_def target_step_def restart_step_def curve_step_def rise_state_def
      Let_def)

lemma curve_110_part_1:
  "map (rising_value 0 110) [1, 2, 3, 4, 5, 6, 7, 8, 9, 10] = [0, 0, 0, 1, 1, 2, 3, 4, 5, 6]"
  by code_simp

lemma curve_110_part_2:
  "map (rising_value 0 110) [11, 12, 13, 14, 15, 16, 17, 18, 19, 20] = [8, 9, 11, 13, 15, 17, 19, 22, 24, 27]"
  by code_simp

lemma curve_110_part_3:
  "map (rising_value 0 110) [21, 22, 23, 24, 25, 26, 27, 28, 29, 30] = [30, 33, 36, 39, 42, 46, 50, 53, 57, 61]"
  by code_simp

lemma curve_110_part_4:
  "map (rising_value 0 110) [31, 32, 33, 34, 35, 36, 37, 38, 39, 40] = [66, 70, 74, 79, 84, 89, 94, 99, 104, 110]"
  by code_simp

lemma curve_110_map: "map (rising_value 0 110) step_numbers = curve_110"
  using curve_110_part_1 curve_110_part_2 curve_110_part_3 curve_110_part_4
  by (simp add: curve_110_def step_numbers_def)

lemma step_numbers_upt: "map (\<lambda>n. of_nat (Suc n)) [0..<40] = step_numbers"
  unfolding step_numbers_def by code_simp

lemma step_numbers_nth:
  assumes "n < 40"
  shows "step_numbers ! n = of_nat (Suc n)"
proof -
  have "step_numbers ! n = map (\<lambda>n. of_nat (Suc n)) [0..<40] ! n"
    by (simp only: step_numbers_upt)
  also have "\<dots> = of_nat (Suc ([0..<40] ! n))"
    using assms by (intro nth_map) simp
  finally show ?thesis using assms by simp
qed

lemma step_numbers_length: "length step_numbers = 40"
  by (simp add: step_numbers_def)

lemma curve_110_nth: "n < 40 \<Longrightarrow> rising_value 0 110 (of_nat (Suc n)) = curve_110 ! n"
proof -
  assume n: "n < 40"
  have "curve_110 ! n = map (rising_value 0 110) step_numbers ! n"
    by (simp only: curve_110_map)
  also have "\<dots> = rising_value 0 110 (step_numbers ! n)"
    using n by (intro nth_map) (simp add: step_numbers_length)
  finally show ?thesis by (simp only: step_numbers_nth [OF n])
qed

lemma curve_110_sorted: "sorted curve_110"
  by (simp add: curve_110_def)

lemma curve_110_length: "length curve_110 = 40"
  by (simp add: curve_110_def)

lemma curve_110_below: "list_all (\<lambda>c. c < 110) (take 39 curve_110)"
  by (simp add: curve_110_def)

lemma curve_110_last: "curve_110 ! 39 = 110"
  by (simp add: curve_110_def)

lemma ticks_snoc:
  "ticks Lux (ts @ [t]) s = snd (calculatePerceivedBrightness Lux t (ticks Lux ts s))"
  by (induction ts arbitrary: s) simp_all

lemma calculatePerceivedBrightness_fst:
  "fst (calculatePerceivedBrightness Lux t s) =
     currentBrightness (snd (calculatePerceivedBrightness Lux t s))"
  by (simp add: calculatePerceivedBrightness_def)

lemma curve_110_lt: "i < 39 \<Longrightarrow> curve_110 ! i < 110"
  using curve_110_below by (simp add: list_all_length curve_110_length)

lemma curve_110_mono: "i \<le> j \<Longrightarrow> j < 40 \<Longrightarrow> curve_110 ! i \<le> curve_110 ! j"
  using curve_110_sorted by (simp add: sorted_nth_mono curve_110_length)

lemma rise_after_tick:
  assumes "1 \<le> n"
  shows "snd (calculatePerceivedBrightness (Finite 50) t (rise_after l n)) = rise_after l (Suc n)"
proof -
  consider "n < 40" | "n = 40" | "40 < n" by linarith
  then show ?thesis
  proof cases
    case 1
    with assms have "curve_110 ! (n - 1) < 110" by (intro curve_110_lt) simp
    from rise_step [OF 1 this, of t l]
    have "snd (calculatePerceivedBrightness (Finite 50) t
             (rise_state l (of_nat n) (curve_110 ! (n - 1)) True)) =
          rise_state l (of_nat (Suc n)) (curve_110 ! n) True"
      by (simp only: curve_110_nth [OF 1])
    with 1 show ?thesis
      by (simp add: rise_after_def del: of_nat_Suc)
  next
    case 2
    then show ?thesis
      by (simp add: rise_after_def curve_110_last rise_done)
  next
    case 3
    then show ?thesis
      by (simp add: rise_after_def rise_done)
  qed
qed

lemma ticks_closed:
  assumes "currentBrightness s = 0" "\<not> isRising s" "\<not> isFalling s" "\<not> isMove s"
  shows "ts \<noteq> [] \<Longrightarrow> ticks (Finite 50) ts s = rise_after (lastMotionTime s) (length ts)"
proof (induction ts rule: rev_induct)
  case Nil
  then show ?case by simp
next
  case (snoc t ts)
  show ?case
  proof (cases "ts = []")
    case True
    then show ?thesis
      using first_tick [OF assms, of t] curve_110_nth [of 0]
      by (simp add: rise_after_def)
  next
    case False
    then have "1 \<le> length ts" by (cases ts) simp_all
    from rise_after_tick [OF this] snoc.IH [OF False] show ?thesis
      by (simp add: ticks_snoc)
  qed
qed

lemma rise_after_current:
  "currentBrightness (rise_after l n) = (if n \<le> 40 then curve_110 ! (n - 1) else 110)"
  by (simp add: rise_after_def rise_state_def)

lemma rise_after_le_110: "currentBrightness (rise_after l n) \<le> 110"
proof (cases "n \<le> 40")
  case True
  then have "curve_110 ! (n - 1) \<le> curve_110 ! 39" by (intro curve_110_mono) simp_all
  with True show ?thesis by (simp add: rise_after_current curve_110_last)
next
  case False
  then show ?thesis by (simp add: rise_after_current)
qed

lemma rise_after_mono:
  assumes "1 \<le> n"
  shows "currentBrightness (rise_after l n) \<le> currentBrightness (rise_after l (Suc n))"
proof -
  consider "n < 40" | "n = 40" | "40 < n" by linarith
  then show ?thesis
  proof cases
    case 1
    then have "curve_110 ! (n - 1) \<le> curve_110 ! n" by (intro curve_110_mono) simp_all
    with 1 show ?thesis by (simp add: rise_after_current)
  next
    case 2
    then show ?thesis by (simp add: rise_after_current curve_110_last)
  next
    case 3
    then show ?thesis by (simp add: rise_after_current)
  qed
qed

lemma rise_after_110:
  assumes "1 \<le> n"
  shows "currentBrightness (rise_after l n) = 110 \<longleftrightarrow> 40 \<le> n"
proof -
  consider "n < 40" | "n = 40" | "40 < n" by linarith
  then show ?thesis
  proof cases
    case 1
    with assms have "curve_110 ! (n - 1) < 110" by (intro curve_110_lt) simp
    with 1 show ?thesis by (simp add: rise_after_current)
  next
    case 2
    then show ?thesis by (simp add: rise_after_current curve_110_last)
  next
    case 3
    then show ?thesis by (simp add: rise_after_current)
  qed
qed

text \<open>
  Claim C6, amended.  From brightness 0 in the idle phase, with 50 lux and no motion,
  the brightness returned by each tick never decreases and never exceeds 110; it is 110
  exactly from the 40th tick on; the rising flag is still set after the 40th tick, and
  from the 41st tick on the phase is idle and a further tick changes nothing.
\<close>

theorem rise_to_110:
  assumes "currentBrightness s = 0" and "\<not> isRising s" and "\<not> isFalling s" and "\<not> isMove s"
  shows "let S = ticks (Finite 50) ts s; S' = ticks (Finite 50) (ts @ [t]) s; n = length ts in
           fst (calculatePerceivedBrightness (Finite 50) t S) = currentBrightness S' \<and>
           currentBrightness S \<le> currentBrightness S' \<and>
           currentBrightness S' \<le> 110 \<and>
           (currentBrightness S = 110 \<longleftrightarrow> 40 \<le> n) \<and>
           (n = 40 \<longrightarrow> isRising S) \<and>
           (41 \<le> n \<longrightarrow> \<not> isRising S \<and> \<not> isFalling S \<and> S' = S)"
proof -
  let ?l = "lastMotionTime s"
  have S': "ticks (Finite 50) (ts @ [t]) s = rise_after ?l (Suc (length ts))"
    using ticks_closed [OF assms, of "ts @ [t]"] by simp
  have out: "fst (calculatePerceivedBrightness (Finite 50) t (ticks (Finite 50) ts s)) =
      currentBrightness (ticks (Finite 50) (ts @ [t]) s)"
    by (simp add: ticks_snoc calculatePerceivedBrightness_fst)
  show ?thesis
  proof (cases "ts = []")
    case True
    have "ticks (Finite 50) ts s = s" using True by simp
    with assms(1) out show ?thesis
      unfolding Let_def S' using rise_after_le_110 [of ?l "Suc (length ts)"] True
      by simp
  next
    case False
    then have n: "1 \<le> length ts" by (cases ts) simp_all
    have S: "ticks (Finite 50) ts s = rise_after ?l (length ts)"
      using ticks_closed [OF assms False] .
    have flags: "length ts = 40 \<longrightarrow> isRising (rise_after ?l (length ts))"
      "41 \<le> length ts \<longrightarrow> \<not> isRising (rise_after ?l (length ts)) \<and>
         \<not> isFalling (rise_after ?l (length ts)) \<and>
         rise_after ?l (Suc (length ts)) = rise_after ?l (length ts)"
      by (simp_all add: rise_after_def rise_state_def)
    have out': "fst (calculatePerceivedBrightness (Finite 50) t (rise_after ?l (length ts))) =
        currentBrightness (rise_after ?l (Suc (length ts)))"
      using out unfolding S' S .
    show ?thesis
      unfolding Let_def S' S
      using rise_after_mono [OF n, of ?l] rise_after_110 [OF n, of ?l]
        rise_after_le_110 [of ?l "Suc (length ts)"] flags out'
      by simp
  qed
qed

text \<open>
  Claim C6 as stated fails: after the 40th tick the brightness is 110 and the phase is
  still rising; the 41st tick changes the phase.
\<close>

theorem rise_to_110_counterexample:
  "currentBrightness (ticks (Finite 50) (replicate 40 0) (brightnessInit brightness_static)) = 110 \<and>
   isRising (ticks (Finite 50) (replicate 40 0) (brightnessInit brightness_static)) \<and>
   \<not> isRising (ticks (Finite 50) (replicate 41 0) (brightnessInit brightness_static))"
proof -
  let ?s = "brightnessInit brightness_static"
  have h: "currentBrightness ?s = 0" "\<not> isRising ?s" "\<not> isFalling ?s" "\<not> isMove ?s"
    by (simp_all add: brightnessInit_def brightness_static_def)
  have "ticks (Finite 50) (replicate 40 0) ?s = rise_after (lastMotionTime ?s) 40"
    using ticks_closed [OF h, of "replicate 40 0"] by simp
  moreover have "ticks (Finite 50) (replicate 41 0) ?s = rise_after (lastMotionTime ?s) 41"
    using ticks_closed [OF h, of "replicate 41 0"] by simp
  ultimately show ?thesis
    by (simp add: rise_after_def rise_state_def curve_110_last)
qed

theorem rise_to_110_witness:
  "currentBrightness (brightnessInit brightness_static) = 0 \<and>
   \<not> isRising (brightnessInit brightness_static) \<and>
   \<not> isFalling (brightnessInit brightness_static) \<and>
   \<not> isMove (brightnessInit brightness_static) \<and>
   currentBrightness (ticks (Finite 50) (replicate 40 0) (brightnessInit brightness_static)) = 110 \<and>
   isRising (ticks (Finite 50) (replicate 40 0) (brightnessInit brightness_static)) \<and>
   \<not> isRising (ticks (Finite 50) (replicate 41 0) (brightnessInit brightness_static)) \<and>
   \<not> isFalling (ticks (Finite 50) (replicate 41 0) (brightnessInit brightness_static)) \<and>
   ticks (Finite 50) (replicate 41 0 @ [0]) (brightnessInit brightness_static) =
     ticks (Finite 50) (replicate 41 0) (brightnessInit brightness_static)"
proof -
  let ?s = "brightnessInit brightness_static"
  have h: "currentBrightness ?s = 0" "\<not> isRising ?s" "\<not> isFalling ?s" "\<not> isMove ?s"
    by (simp_all add: brightnessInit_def brightness_static_def)
  from rise_to_110 [OF h, of "replicate 40 0" 0] rise_to_110 [OF h, of "replicate 41 0" 0] h
  show ?thesis by (simp add: Let_def del: ticks.simps replicate.simps)
qed

end
